theory Spec2Isabelle
  imports Complex_Main
begin

section \<open>Data model\<close>

text \<open>
  The Python sources compute with unbounded integers and with double-precision
  floating-point numbers. Integers are modelled as \<^typ>\<open>int\<close>.

  The floating-point arithmetic is a parameter of the model: a record of the
  operations the sources apply to floats, over a type \<open>'f\<close> of float values. Nothing is
  assumed about rounding, so a statement proved for every such record holds for the
  IEEE doubles of the interpreter and for the numerics of the libraries.

  An exception is a value \<open>Inl e\<close> of a sum type, a normal return is \<open>Inr v\<close>.
  A \<open>while\<close> loop whose termination is itself a claim is a partial function into
  \<open>option\<close>: \<open>None\<close> stands for a loop that never returns.
\<close>

datatype error = TypeError | IndexError | ZeroDivisionError | ValueError | OverflowError

text \<open>
  The operations on floats:
  \<^item> \<open>float_0\<close> and \<open>float_1\<close>, the integer literals \<open>0\<close> and \<open>1\<close> where they meet a float;
  \<^item> \<open>round_quotient\<close>, the float that the true division of two integers returns for
    their exact quotient, when the quotient is in the range of a double;
  \<^item> \<open>comb\<close>, which is \<open>scipy.special.comb(N, k)\<close> with the default \<open>exact=False\<close>, and
    \<open>half_pow\<close>, which is \<open>(0.5)**D\<close>; either may raise;
  \<^item> \<open>f_add\<close>, \<open>f_sub\<close>, \<open>f_mul\<close> for \<open>+\<close>, \<open>-\<close>, \<open>*\<close>, and \<open>f_ge\<close>, \<open>f_gt\<close> for
    \<open>>=\<close> and \<open>>\<close>.
\<close>

record 'f arith =
  float_0 :: "'f"
  float_1 :: "'f"
  round_quotient :: "rat \<Rightarrow> 'f"
  comb :: "int \<Rightarrow> int \<Rightarrow> error + 'f"
  half_pow :: "int \<Rightarrow> error + 'f"
  f_add :: "'f \<Rightarrow> 'f \<Rightarrow> 'f"
  f_sub :: "'f \<Rightarrow> 'f \<Rightarrow> 'f"
  f_mul :: "'f \<Rightarrow> 'f \<Rightarrow> 'f"
  f_ge :: "'f \<Rightarrow> 'f \<Rightarrow> bool"
  f_gt :: "'f \<Rightarrow> 'f \<Rightarrow> bool"

text \<open>
  \<open>a / b\<close> on two integers. Python rounds the exact quotient to the nearest double and
  raises an \<open>OverflowError\<close> when that is beyond the largest double: when the
  quotient reaches \<open>2\<^bsup>1024\<^esup> - 2\<^bsup>970\<^esup>\<close>, half a unit in the last place above the
  largest double \<open>2\<^bsup>1024\<^esup> - 2\<^bsup>971\<^esup>\<close>. Division by 0 raises a \<open>ZeroDivisionError\<close>.
\<close>

definition too_large_for_float :: "rat \<Rightarrow> bool" where
  "too_large_for_float q \<longleftrightarrow> 2 ^ 1024 - 2 ^ 970 \<le> \<bar>q\<bar>"

definition true_divide :: "'f arith \<Rightarrow> int \<Rightarrow> int \<Rightarrow> error + 'f" where
  "true_divide ops a b =
     (if b = 0 then Inl ZeroDivisionError
      else if too_large_for_float (of_int a / of_int b) then Inl OverflowError
      else Inr (round_quotient ops (of_int a / of_int b)))"

text \<open>
  \<open>probability_all_vectors_min_distance\<close> returns a probability in forward mode and a
  dimension in inverse mode.
\<close>

datatype 'f result = Probability 'f | Dimension int

section \<open>analytic\_01.py\<close>

text \<open>
  \<open>probability_distance_less_than(D, min_distance)\<close>: the accumulator starts at 0 and
  the body runs for \<open>k\<close> in \<open>range(min_distance)\<close>, that is \<open>[0..min_distance - 1]\<close>
  (empty when \<open>min_distance \<le> 0\<close>). The argument \<open>D\<close> may be Python's \<open>None\<close> (the sweep
  passes it): the body then raises a \<open>TypeError\<close> when it reads \<open>D\<close>. In
  \<open>comb(D, k) * (0.5)**D\<close> the call of \<open>comb\<close> is evaluated first.
\<close>

definition probability_distance_less_than ::
  "'f arith \<Rightarrow> int option \<Rightarrow> int \<Rightarrow> error + 'f" where
  "probability_distance_less_than ops D min_distance =
     fold (\<lambda>k acc. case acc of
              Inl e \<Rightarrow> Inl e
            | Inr p_too_close \<Rightarrow>
                (case D of
                   None \<Rightarrow> Inl TypeError
                 | Some d \<Rightarrow>
                     (case comb ops d k of
                        Inl e \<Rightarrow> Inl e
                      | Inr c \<Rightarrow>
                          (case half_pow ops d of
                             Inl e \<Rightarrow> Inl e
                           | Inr h \<Rightarrow> Inr (f_add ops p_too_close (f_mul ops c h))))))
          [0..min_distance - 1] (Inr (float_0 ops))"

text \<open>
  The test of one iteration of the search, at \<open>mid_D\<close>:
  \<open>prob = 1 - (N * (N-1) / 2) * probability_distance_less_than(mid_D, min_distance)\<close>
  and then \<open>prob >= success_probability\<close>. The division is evaluated before the call.
\<close>

definition search_test :: "'f arith \<Rightarrow> int \<Rightarrow> int \<Rightarrow> 'f \<Rightarrow> int \<Rightarrow> error + bool" where
  "search_test ops N min_distance success_probability mid_D =
     (case true_divide ops (N * (N - 1)) 2 of
        Inl e \<Rightarrow> Inl e
      | Inr pairs \<Rightarrow>
          (case probability_distance_less_than ops (Some mid_D) min_distance of
             Inl e \<Rightarrow> Inl e
           | Inr p \<Rightarrow>
               (let prob = f_sub ops (float_1 ops) (f_mul ops pairs p)
                in Inr (f_ge ops prob success_probability))))"

text \<open>
  The \<open>while low_D <= high_D\<close> loop of inverse mode, on the loop variables
  \<open>low_D\<close> and \<open>high_D\<close>. \<open>//\<close> is floor division (\<open>div\<close> on \<^typ>\<open>int\<close>). An
  exception of the test leaves the loop.
\<close>

partial_function (option) binary_search ::
  "'f arith \<Rightarrow> int \<Rightarrow> int \<Rightarrow> 'f \<Rightarrow> int \<Rightarrow> int \<Rightarrow> (error + int) option" where
  "binary_search ops N min_distance success_probability low_D high_D =
    (if low_D \<le> high_D then
       (let mid_D = (low_D + high_D) div 2 in
        case search_test ops N min_distance success_probability mid_D of
          Inl e \<Rightarrow> Some (Inl e)
        | Inr passed \<Rightarrow>
            if passed
            then binary_search ops N min_distance success_probability low_D (mid_D - 1)
            else binary_search ops N min_distance success_probability (mid_D + 1) high_D)
     else Some (Inr low_D))"

declare binary_search.simps [code]

text \<open>
  \<open>probability_all_vectors_min_distance(N, D, min_distance, success_probability=None)\<close>.
  With a \<open>success_probability\<close> the search runs from \<open>low_D = min_distance\<close> and
  \<open>high_D = 1000\<close> and \<open>low_D\<close> is returned. Without one the union bound is returned;
  \<open>max(0, x)\<close> is \<open>x\<close> when \<open>x > 0\<close> and the integer 0 otherwise.
\<close>

definition probability_all_vectors_min_distance ::
  "'f arith \<Rightarrow> int \<Rightarrow> int option \<Rightarrow> int \<Rightarrow> 'f option \<Rightarrow> (error + 'f result) option" where
  "probability_all_vectors_min_distance ops N D min_distance success_probability =
     (case success_probability of
        Some tau \<Rightarrow>
          map_option (map_sum id Dimension)
            (binary_search ops N min_distance tau min_distance 1000)
      | None \<Rightarrow>
          (case comb ops N 2 of
             Inl e \<Rightarrow> Some (Inl e)
           | Inr num_pairs \<Rightarrow>
               (case probability_distance_less_than ops D min_distance of
                  Inl e \<Rightarrow> Some (Inl e)
                | Inr p_too_close \<Rightarrow>
                    (let p_at_least_one_too_close = f_mul ops num_pairs p_too_close;
                         bound = f_sub ops (float_1 ops) p_at_least_one_too_close
                     in Some (Inr (Probability
                          (if f_gt ops bound (float_0 ops) then bound else float_0 ops)))))))"

text \<open>
  \<open>calculate_required_dimensions(N_values, min_distances, target_probabilities)\<close>:
  three nested \<open>for\<close> loops filling a dictionary of dictionaries of dictionaries. Each
  loop is a recursion over its list that threads the dictionary being filled; an
  exception of the call, or a call that does not return, ends the sweep.
\<close>

type_synonym 'f prob_dict = "'f \<rightharpoonup> 'f result"
type_synonym 'f dist_dict = "int \<rightharpoonup> 'f prob_dict"
type_synonym 'f sweep_dict = "int \<rightharpoonup> 'f dist_dict"

fun sweep_probabilities ::
  "'f arith \<Rightarrow> int \<Rightarrow> int \<Rightarrow> 'f list \<Rightarrow> 'f prob_dict \<Rightarrow> (error + 'f prob_dict) option" where
  "sweep_probabilities ops N min_dist [] results = Some (Inr results)"
| "sweep_probabilities ops N min_dist (prob # probs) results =
     (case probability_all_vectors_min_distance ops N None min_dist (Some prob) of
        None \<Rightarrow> None
      | Some (Inl e) \<Rightarrow> Some (Inl e)
      | Some (Inr D) \<Rightarrow> sweep_probabilities ops N min_dist probs (results(prob \<mapsto> D)))"

fun sweep_min_distances ::
  "'f arith \<Rightarrow> int \<Rightarrow> int list \<Rightarrow> 'f list \<Rightarrow> 'f dist_dict \<Rightarrow> (error + 'f dist_dict) option" where
  "sweep_min_distances ops N [] target_probabilities results = Some (Inr results)"
| "sweep_min_distances ops N (min_dist # min_dists) target_probabilities results =
     (case sweep_probabilities ops N min_dist target_probabilities Map.empty of
        None \<Rightarrow> None
      | Some (Inl e) \<Rightarrow> Some (Inl e)
      | Some (Inr inner) \<Rightarrow>
          sweep_min_distances ops N min_dists target_probabilities (results(min_dist \<mapsto> inner)))"

fun sweep_N_values ::
  "'f arith \<Rightarrow> int list \<Rightarrow> int list \<Rightarrow> 'f list \<Rightarrow> 'f sweep_dict
     \<Rightarrow> (error + 'f sweep_dict) option" where
  "sweep_N_values ops [] min_distances target_probabilities results = Some (Inr results)"
| "sweep_N_values ops (N # Ns) min_distances target_probabilities results =
     (case sweep_min_distances ops N min_distances target_probabilities Map.empty of
        None \<Rightarrow> None
      | Some (Inl e) \<Rightarrow> Some (Inl e)
      | Some (Inr inner) \<Rightarrow>
          sweep_N_values ops Ns min_distances target_probabilities (results(N \<mapsto> inner)))"

definition calculate_required_dimensions ::
  "'f arith \<Rightarrow> int list \<Rightarrow> int list \<Rightarrow> 'f list \<Rightarrow> (error + 'f sweep_dict) option" where
  "calculate_required_dimensions ops N_values min_distances target_probabilities =
     sweep_N_values ops N_values min_distances target_probabilities Map.empty"

text \<open>\<open>results[N][min_dist][prob]\<close>, with \<open>None\<close> for a missing key at any level.\<close>

definition entry :: "'f sweep_dict \<Rightarrow> int \<Rightarrow> int \<Rightarrow> 'f \<Rightarrow> 'f result option" where
  "entry results N min_dist prob =
     (case results N of
        None \<Rightarrow> None
      | Some by_dist \<Rightarrow> (case by_dist min_dist of None \<Rightarrow> None | Some by_prob \<Rightarrow> by_prob prob))"

section \<open>sample.py and sample\_2.py\<close>


text \<open>\<open>hamming_distance(v1, v2) = np.sum(v1 != v2)\<close> on two rows of one array.\<close>

definition hamming_distance :: "int list \<Rightarrow> int list \<Rightarrow> int" where
  "hamming_distance v1 v2 = int (length (filter (\<lambda>(a, b). a \<noteq> b) (zip v1 v2)))"

text \<open>
  The success check of one trial in sample.py:
  \<open>vector_set = set(tuple(v) for v in vectors)\<close>, then \<open>len(vector_set) == N\<close>.
\<close>

definition all_vectors_distinct :: "int \<Rightarrow> int list list \<Rightarrow> bool" where
  "all_vectors_distinct N vectors = (let vector_set = set vectors in int (card vector_set) = N)"

text \<open>
  The success check of one trial in sample\_2.py: the loop over \<open>j\<close> in
  \<open>range(i+1, N)\<close> inside the loop over \<open>i\<close> in \<open>range(N)\<close>, each left by \<open>break\<close>
  at the first pair closer than \<open>min_distance\<close>. Reading a row that the array does not
  have raises an \<open>IndexError\<close>.
\<close>

fun inner_pair_loop :: "int list list \<Rightarrow> int \<Rightarrow> nat \<Rightarrow> nat list \<Rightarrow> error + bool" where
  "inner_pair_loop vectors min_distance i [] = Inr True"
| "inner_pair_loop vectors min_distance i (j # js) =
     (if i < length vectors \<and> j < length vectors then
        (let distance = hamming_distance (vectors ! i) (vectors ! j) in
         if distance < min_distance then Inr False
         else inner_pair_loop vectors min_distance i js)
      else Inl IndexError)"

fun outer_pair_loop :: "int list list \<Rightarrow> int \<Rightarrow> nat \<Rightarrow> nat list \<Rightarrow> error + bool" where
  "outer_pair_loop vectors min_distance n [] = Inr True"
| "outer_pair_loop vectors min_distance n (i # is) =
     (case inner_pair_loop vectors min_distance i [i + 1..<n] of
        Inl e \<Rightarrow> Inl e
      | Inr all_meet_min_distance \<Rightarrow>
          if \<not> all_meet_min_distance then Inr False
          else outer_pair_loop vectors min_distance n is)"

definition all_meet_min_distance :: "int \<Rightarrow> int \<Rightarrow> int list list \<Rightarrow> error + bool" where
  "all_meet_min_distance N min_distance vectors =
     outer_pair_loop vectors min_distance (nat N) [0..<nat N]"



section \<open>An arithmetic without rounding\<close>

text \<open>
  One value of the parameter, on the rationals: every operation is exact, \<open>comb\<close> is
  the binomial coefficient (0 outside \<open>0 \<le> k \<le> N\<close>) and \<open>(0.5)**D\<close> is the exact power.
  It serves to evaluate the general statements at concrete inputs, chosen so that
  rounding changes neither a returned value nor the outcome of a comparison: the values
  involved are 0, 1 and \<open>1 - 0.5\<^bsup>D\<^esup>\<close>, compared with 0.75 and with 2.
\<close>

definition exact_arith :: "rat arith" where
  "exact_arith =
     \<lparr> float_0 = 0, float_1 = 1, round_quotient = (\<lambda>q. q),
       comb = (\<lambda>N k. Inr (if k \<le> N \<and> 0 \<le> N \<and> 0 \<le> k then of_nat (nat N choose nat k) else 0)),
       half_pow = (\<lambda>D. Inr (power_int (1/2) D)),
       f_add = (+), f_sub = (-), f_mul = (*),
       f_ge = (\<lambda>a b. b \<le> a), f_gt = (\<lambda>a b. b < a) \<rparr>"

section \<open>Inverse mode\<close>


lemma binary_search_empty:
  "high < low \<Longrightarrow> binary_search ops N m tau low high = Some (Inr low)"
  by (subst binary_search.simps) simp

lemma binary_search_total:
  "\<exists>r. binary_search ops N m tau low high = Some r"
proof (induction "nat (high + 1 - low)" arbitrary: low high rule: less_induct)
  case less
  show ?case
  proof (cases "low \<le> high")
    case False
    then show ?thesis by (subst binary_search.simps) simp
  next
    case True
    define mid where "mid = (low + high) div 2"
    have bounds: "low \<le> mid" "mid \<le> high" using True by (auto simp: mid_def)
    have "nat (mid - 1 + 1 - low) < nat (high + 1 - low)" using bounds by linarith
    then obtain r1 where r1: "binary_search ops N m tau low (mid - 1) = Some r1"
      using less by blast
    have "nat (high + 1 - (mid + 1)) < nat (high + 1 - low)" using bounds by linarith
    then obtain r2 where r2: "binary_search ops N m tau (mid + 1) high = Some r2"
      using less by blast
    show ?thesis
      by (subst binary_search.simps)
         (simp add: True r1 r2 mid_def [symmetric] Let_def split: sum.split)
  qed
qed

lemma binary_search_raises:
  assumes "low \<le> high" and "search_test ops N m tau ((low + high) div 2) = Inl e"
  shows "binary_search ops N m tau low high = Some (Inl e)"
  by (subst binary_search.simps) (simp add: assms)

lemma binary_search_boundary:
  assumes "\<forall>D. low \<le> D \<and> D \<le> high \<longrightarrow> (\<exists>b. search_test ops N m tau D = Inr b)"
    and "low \<le> high + 1"
  shows "\<exists>r. binary_search ops N m tau low high = Some (Inr r) \<and> low \<le> r \<and> r \<le> high + 1
             \<and> (r \<le> high \<longrightarrow> search_test ops N m tau r = Inr True)
             \<and> (low < r \<longrightarrow> search_test ops N m tau (r - 1) = Inr False)"
  using assms
proof (induction "nat (high + 1 - low)" arbitrary: low high rule: less_induct)
  case less
  show ?case
  proof (cases "low \<le> high")
    case False
    with less.prems have "high + 1 = low" by simp
    then show ?thesis using False by (subst binary_search.simps) auto
  next
    case True
    define mid where "mid = (low + high) div 2"
    have bounds: "low \<le> mid" "mid \<le> high" using True by (auto simp: mid_def)
    obtain b where b: "search_test ops N m tau mid = Inr b"
      using less.prems(1) bounds by blast
    show ?thesis
    proof (cases b)
      case True
      have "nat (mid - 1 + 1 - low) < nat (high + 1 - low)" using bounds by linarith
      moreover have "\<forall>D. low \<le> D \<and> D \<le> mid - 1 \<longrightarrow> (\<exists>b. search_test ops N m tau D = Inr b)"
        using less.prems(1) bounds by auto
      moreover have "low \<le> mid - 1 + 1" using bounds by simp
      ultimately obtain r where r: "binary_search ops N m tau low (mid - 1) = Some (Inr r)"
        "low \<le> r" "r \<le> mid - 1 + 1"
        "r \<le> mid - 1 \<longrightarrow> search_test ops N m tau r = Inr True"
        "low < r \<longrightarrow> search_test ops N m tau (r - 1) = Inr False"
        using less.hyps [of "mid - 1" low] by blast
      have "search_test ops N m tau r = Inr True"
      proof (cases "r \<le> mid - 1")
        case True
        with r(4) show ?thesis by blast
      next
        case False
        with r(3) have "r = mid" by simp
        with b \<open>b\<close> show ?thesis by simp
      qed
      moreover have "binary_search ops N m tau low high = Some (Inr r)"
        using \<open>b\<close>
        by (subst binary_search.simps) (simp add: \<open>low \<le> high\<close> b r(1) mid_def [symmetric])
      ultimately show ?thesis using r(2,3,5) bounds by auto
    next
      case False
      have "nat (high + 1 - (mid + 1)) < nat (high + 1 - low)" using bounds by linarith
      moreover have "\<forall>D. mid + 1 \<le> D \<and> D \<le> high \<longrightarrow> (\<exists>b. search_test ops N m tau D = Inr b)"
        using less.prems(1) bounds by auto
      moreover have "mid + 1 \<le> high + 1" using bounds by simp
      ultimately obtain r where r: "binary_search ops N m tau (mid + 1) high = Some (Inr r)"
        "mid + 1 \<le> r" "r \<le> high + 1"
        "r \<le> high \<longrightarrow> search_test ops N m tau r = Inr True"
        "mid + 1 < r \<longrightarrow> search_test ops N m tau (r - 1) = Inr False"
        using less.hyps [of high "mid + 1"] by blast
      have "search_test ops N m tau (r - 1) = Inr False"
      proof (cases "mid + 1 < r")
        case True
        with r(5) show ?thesis by blast
      next
        case nless: False
        with r(2) have "r - 1 = mid" by simp
        with b False show ?thesis by simp
      qed
      moreover have "binary_search ops N m tau low high = Some (Inr r)"
        using False
        by (subst binary_search.simps) (simp add: \<open>low \<le> high\<close> b r(1) mid_def [symmetric])
      ultimately show ?thesis using r(2,3,4) bounds by auto
    qed
  qed
qed

lemma required_dimension_spec:
  assumes "\<forall>D. m \<le> D \<and> D \<le> 1000 \<longrightarrow> (\<exists>b. search_test ops N m tau D = Inr b)"
  shows "\<exists>r. probability_all_vectors_min_distance ops N D0 m (Some tau)
               = Some (Inr (Dimension r))
             \<and> m \<le> r \<and> r \<le> max m 1001
             \<and> (r \<le> 1000 \<longrightarrow> search_test ops N m tau r = Inr True)
             \<and> (m < r \<longrightarrow> search_test ops N m tau (r - 1) = Inr False)"
proof (cases "m \<le> 1001")
  case True
  then have "m \<le> 1000 + 1" by simp
  from binary_search_boundary [OF assms this]
  obtain r where r: "binary_search ops N m tau m 1000 = Some (Inr r)" "m \<le> r" "r \<le> 1000 + 1"
    "r \<le> 1000 \<longrightarrow> search_test ops N m tau r = Inr True"
    "m < r \<longrightarrow> search_test ops N m tau (r - 1) = Inr False"
    by blast
  have "probability_all_vectors_min_distance ops N D0 m (Some tau) = Some (Inr (Dimension r))"
    by (simp add: probability_all_vectors_min_distance_def r(1))
  then show ?thesis using r(2-5) True by auto
next
  case False
  then have "binary_search ops N m tau m 1000 = Some (Inr m)"
    by (intro binary_search_empty) simp
  then have "probability_all_vectors_min_distance ops N D0 m (Some tau) = Some (Inr (Dimension m))"
    by (simp add: probability_all_vectors_min_distance_def)
  then show ?thesis using False by auto
qed


lemma search_test_overflow:
  "too_large_for_float (of_int (N * (N - 1)) / 2) \<Longrightarrow> search_test ops N m tau D = Inl OverflowError"
  by (simp add: search_test_def true_divide_def)

lemma inverse_overflow:
  assumes "m \<le> 1000" and "too_large_for_float (of_int (N * (N - 1)) / 2)"
  shows "probability_all_vectors_min_distance ops N D0 m (Some tau) = Some (Inl OverflowError)"
proof -
  have "binary_search ops N m tau m 1000 = Some (Inl OverflowError)"
    using assms(1) search_test_overflow [OF assms(2)] by (intro binary_search_raises) simp_all
  then show ?thesis by (simp add: probability_all_vectors_min_distance_def)
qed

lemma inverse_call_total:
  "(\<exists>e. probability_all_vectors_min_distance ops N D0 m (Some tau) = Some (Inl e))
   \<or> (\<exists>d. probability_all_vectors_min_distance ops N D0 m (Some tau) = Some (Inr (Dimension d)))"
proof -
  obtain r where "binary_search ops N m tau m 1000 = Some r"
    using binary_search_total [of ops N m tau m 1000] by auto
  then show ?thesis
    by (cases r) (simp_all add: probability_all_vectors_min_distance_def)
qed

lemma huge_N_overflows: "too_large_for_float (of_int (10 ^ 155 * (10 ^ 155 - 1)) / 2)"
  by (simp add: too_large_for_float_def)

text \<open>
  In the arithmetic without rounding, for \<open>N = 2\<close> and \<open>min_distance = 1\<close>: the pair
  count is 1, the tail at \<open>D\<close> is \<open>0.5\<^bsup>D\<^esup>\<close>, and the test at \<open>D\<close> is
  \<open>1 - 0.5\<^bsup>D\<^esup> \<ge> tau\<close>.
\<close>

lemma exact_arith_simps:
  "float_0 exact_arith = 0"
  "float_1 exact_arith = 1"
  "round_quotient exact_arith q = q"
  "comb exact_arith N k
     = Inr (if k \<le> N \<and> 0 \<le> N \<and> 0 \<le> k then of_nat (nat N choose nat k) else 0)"
  "half_pow exact_arith D = Inr (power_int (1/2) D)"
  "f_add exact_arith a b = a + b"
  "f_sub exact_arith a b = a - b"
  "f_mul exact_arith a b = a * b"
  "f_ge exact_arith a b \<longleftrightarrow> b \<le> a"
  "f_gt exact_arith a b \<longleftrightarrow> b < a"
  by (simp_all add: exact_arith_def)

lemma exact_tail_1:
  assumes "0 \<le> D"
  shows "probability_distance_less_than exact_arith (Some D) 1 = Inr ((1/2) ^ nat D)"
proof -
  have "[0..(1::int) - 1] = [0]" by (simp add: upto.simps)
  then show ?thesis
    using assms
    by (simp add: probability_distance_less_than_def exact_arith_simps power_int_def)
qed

lemma exact_search_test_2_1:
  assumes "0 \<le> D"
  shows "search_test exact_arith 2 1 tau D = Inr (tau \<le> 1 - (1/2) ^ nat D)"
  by (simp add: search_test_def true_divide_def too_large_for_float_def
      exact_tail_1 [OF assms] exact_arith_simps)

lemma half_power_mono:
  fixes tau :: rat
  assumes "a \<le> b" and "tau \<le> 1 - (1/2) ^ a"
  shows "tau \<le> 1 - (1/2) ^ b"
proof -
  have "(1/2 :: rat) ^ b \<le> (1/2) ^ a"
    using assms(1) by (intro power_decreasing) simp_all
  with assms(2) show ?thesis by linarith
qed

lemma exact_required_2_1:
  assumes "1 \<le> d" and "d \<le> 1000" and "tau \<le> 1 - (1/2) ^ nat d"
    and "1 < d \<Longrightarrow> \<not> tau \<le> 1 - (1/2) ^ nat (d - 1)"
  shows "probability_all_vectors_min_distance exact_arith 2 D0 1 (Some tau)
           = Some (Inr (Dimension d))"
proof -
  have test: "search_test exact_arith 2 1 tau D = Inr (tau \<le> 1 - (1/2) ^ nat D)"
    if "1 \<le> D" for D
    using that by (intro exact_search_test_2_1) simp
  then have "\<forall>D. 1 \<le> D \<and> D \<le> 1000 \<longrightarrow> (\<exists>b. search_test exact_arith 2 1 tau D = Inr b)"
    by simp
  from required_dimension_spec [OF this, of D0]
  obtain r where r:
    "probability_all_vectors_min_distance exact_arith 2 D0 1 (Some tau) = Some (Inr (Dimension r))"
    "1 \<le> r" "r \<le> 1000 \<longrightarrow> search_test exact_arith 2 1 tau r = Inr True"
    "1 < r \<longrightarrow> search_test exact_arith 2 1 tau (r - 1) = Inr False"
    by blast
  have "\<not> r < d"
  proof
    assume "r < d"
    then have "tau \<le> 1 - (1/2) ^ nat r" "nat r \<le> nat (d - 1)" "1 < d"
      using r(2,3) assms(2) test [of r] by simp_all
    then show False using half_power_mono assms(4) by blast
  qed
  moreover have "\<not> d < r"
  proof
    assume "d < r"
    then have "\<not> tau \<le> 1 - (1/2) ^ nat (r - 1)" "nat d \<le> nat (r - 1)"
      using r(4) assms(1) test [of "r - 1"] by simp_all
    then show False using half_power_mono assms(3) by blast
  qed
  ultimately have "r = d" by simp
  with r(1) show ?thesis by simp
qed

lemma exact_required_2_1_none:
  assumes "1 < tau"
  shows "probability_all_vectors_min_distance exact_arith 2 D0 1 (Some tau)
           = Some (Inr (Dimension 1001))"
proof -
  have test: "search_test exact_arith 2 1 tau D = Inr False" if "1 \<le> D" for D
  proof -
    have "(0::rat) \<le> (1/2) ^ nat D" by simp
    with assms have "\<not> tau \<le> 1 - (1/2) ^ nat D" by linarith
    then show ?thesis using that by (simp add: exact_search_test_2_1)
  qed
  then have "\<forall>D. 1 \<le> D \<and> D \<le> 1000 \<longrightarrow> (\<exists>b. search_test exact_arith 2 1 tau D = Inr b)"
    by blast
  from required_dimension_spec [OF this, of D0]
  obtain r where r:
    "probability_all_vectors_min_distance exact_arith 2 D0 1 (Some tau) = Some (Inr (Dimension r))"
    "1 \<le> r" "r \<le> max 1 1001" "r \<le> 1000 \<longrightarrow> search_test exact_arith 2 1 tau r = Inr True"
    by blast
  have "\<not> r \<le> 1000" using r(2,4) test [of r] by auto
  with r(3) have "r = 1001" by simp
  with r(1) show ?thesis by simp
qed

text \<open>
  C10: with a \<open>success_probability\<close> supplied, the result does not depend on the
  argument \<open>D\<close>: any two values of \<open>D\<close> (\<open>None\<close> included, which is what the sweep
  passes) give the same result, in every float arithmetic.
\<close>

theorem inverse_mode_ignores_D:
  "probability_all_vectors_min_distance ops N D1 min_distance (Some success_probability)
     = probability_all_vectors_min_distance ops N D2 min_distance (Some success_probability)"
  by (simp add: probability_all_vectors_min_distance_def)

text \<open>
  For \<open>N = 10\<^bsup>155\<^esup>\<close> the quotient \<open>N * (N-1) / 2\<close> is beyond the doubles: the first
  iteration raises an \<open>OverflowError\<close> and no dimension is returned.
\<close>

theorem inverse_mode_overflow_counterexample:
  "probability_all_vectors_min_distance exact_arith (10 ^ 155) None 1 (Some (1/2))
     = Some (Inl OverflowError)"
  by (rule inverse_overflow [OF _ huge_N_overflows]) simp

text \<open>
  C9 (as the code behaves): the binary search of inverse mode terminates for every
  input and every float arithmetic. The call returns a dimension when the test of
  the loop raises no exception on \<open>[min_distance, 1000]\<close>; it raises an
  \<open>OverflowError\<close>, and returns no dimension, when \<open>min_distance \<le> 1000\<close> and
  \<open>N * (N-1) / 2\<close> is too large for a double.
\<close>

theorem inverse_mode_terminates:
  "\<exists>r. probability_all_vectors_min_distance ops N D min_distance (Some tau) = Some r
      \<and> (min_distance \<le> 1000 \<and> too_large_for_float (of_int (N * (N - 1)) / 2)
           \<longrightarrow> r = Inl OverflowError)
      \<and> ((\<forall>d. min_distance \<le> d \<and> d \<le> 1000
                \<longrightarrow> (\<exists>b. search_test ops N min_distance tau d = Inr b))
           \<longrightarrow> (\<exists>d. r = Inr (Dimension d)))"
proof -
  obtain r where r: "probability_all_vectors_min_distance ops N D min_distance (Some tau) = Some r"
    using inverse_call_total [of ops N D min_distance tau] by auto
  have "r = Inl OverflowError"
    if "min_distance \<le> 1000" "too_large_for_float (of_int (N * (N - 1)) / 2)"
    using inverse_overflow [OF that, of ops D tau] r by simp
  moreover have "\<exists>d. r = Inr (Dimension d)"
    if "\<forall>d. min_distance \<le> d \<and> d \<le> 1000
                \<longrightarrow> (\<exists>b. search_test ops N min_distance tau d = Inr b)"
    using required_dimension_spec [OF that, of D] r by auto
  ultimately show ?thesis using r by blast
qed

theorem inverse_mode_terminates_witness:
  "(\<exists>r. probability_all_vectors_min_distance exact_arith (10 ^ 155) None 1 (Some (1/2)) = Some r
        \<and> r = Inl OverflowError)
   \<and> (\<exists>d. probability_all_vectors_min_distance exact_arith 2 None 1 (Some (3/4))
             = Some (Inr (Dimension d)))"
proof -
  have "(1::int) \<le> 1000" by simp
  then have "\<exists>r. probability_all_vectors_min_distance exact_arith (10 ^ 155) None 1 (Some (1/2)) = Some r
        \<and> r = Inl OverflowError"
    using inverse_mode_terminates [of exact_arith "10 ^ 155" None 1 "1/2"] huge_N_overflows
    by blast
  moreover have "\<forall>d. (1::int) \<le> d \<and> d \<le> 1000
                \<longrightarrow> (\<exists>b. search_test exact_arith 2 1 (3/4) d = Inr b)"
    by (simp add: exact_search_test_2_1)
  then have "\<exists>d. probability_all_vectors_min_distance exact_arith 2 None 1 (Some (3/4))
             = Some (Inr (Dimension d))"
    using inverse_mode_terminates [of exact_arith 2 None 1 "3/4"] by auto
  ultimately show ?thesis by blast
qed




section \<open>The sweep\<close>

lemma sweep_probabilities_total:
  "\<exists>r. sweep_probabilities ops N m probs results = Some r"
proof (induction probs arbitrary: results)
  case Nil
  show ?case by simp
next
  case (Cons prob probs)
  from inverse_call_total [of ops N None m prob]
  show ?case using Cons by (auto simp del: not_None_eq)
qed

lemma sweep_probabilities_spec:
  assumes "\<forall>p \<in> set probs. \<exists>d. probability_all_vectors_min_distance ops N None m (Some p)
                                    = Some (Inr (Dimension d))"
  shows "\<exists>r. sweep_probabilities ops N m probs results = Some (Inr r)
      \<and> (\<forall>p. (p \<in> set probs \<longrightarrow>
                 (\<exists>d. r p = Some (Dimension d)
                    \<and> probability_all_vectors_min_distance ops N None m (Some p)
                        = Some (Inr (Dimension d))))
             \<and> (p \<notin> set probs \<longrightarrow> r p = results p))"
  using assms
proof (induction probs arbitrary: results)
  case Nil
  show ?case by simp
next
  case (Cons prob probs)
  obtain d where d: "probability_all_vectors_min_distance ops N None m (Some prob)
                       = Some (Inr (Dimension d))"
    using Cons.prems by auto
  have "\<forall>p \<in> set probs. \<exists>d. probability_all_vectors_min_distance ops N None m (Some p)
                                    = Some (Inr (Dimension d))"
    using Cons.prems by simp
  from Cons.IH [OF this, of "results(prob \<mapsto> Dimension d)"]
  obtain r where r: "sweep_probabilities ops N m probs (results(prob \<mapsto> Dimension d)) = Some (Inr r)"
    and inside: "\<And>p. p \<in> set probs \<Longrightarrow>
                 \<exists>d. r p = Some (Dimension d)
                    \<and> probability_all_vectors_min_distance ops N None m (Some p)
                        = Some (Inr (Dimension d))"
    and outside: "\<And>p. p \<notin> set probs \<Longrightarrow> r p = (results(prob \<mapsto> Dimension d)) p"
    by blast
  have "sweep_probabilities ops N m (prob # probs) results = Some (Inr r)"
    by (simp add: d r)
  moreover have "\<exists>d. r p = Some (Dimension d)
                    \<and> probability_all_vectors_min_distance ops N None m (Some p)
                        = Some (Inr (Dimension d))" if "p \<in> set (prob # probs)" for p
  proof (cases "p \<in> set probs")
    case True
    then show ?thesis by (rule inside)
  next
    case False
    with that have "p = prob" by simp
    with outside [OF False] d show ?thesis by simp
  qed
  moreover have "r p = results p" if "p \<notin> set (prob # probs)" for p
    using that outside [of p] by simp
  ultimately show ?case by blast
qed

lemma sweep_probabilities_raises:
  assumes "\<exists>p \<in> set probs. \<exists>e. probability_all_vectors_min_distance ops N None m (Some p)
                                    = Some (Inl e)"
  shows "\<exists>e. sweep_probabilities ops N m probs results = Some (Inl e)"
  using assms
proof (induction probs arbitrary: results)
  case Nil
  then show ?case by simp
next
  case (Cons prob probs)
  from inverse_call_total [of ops N None m prob]
  show ?case
  proof
    assume "\<exists>e. probability_all_vectors_min_distance ops N None m (Some prob) = Some (Inl e)"
    then show ?thesis by auto
  next
    assume "\<exists>d. probability_all_vectors_min_distance ops N None m (Some prob)
                  = Some (Inr (Dimension d))"
    then obtain d where d: "probability_all_vectors_min_distance ops N None m (Some prob)
                  = Some (Inr (Dimension d))" by blast
    with Cons.prems
    have "\<exists>p \<in> set probs. \<exists>e. probability_all_vectors_min_distance ops N None m (Some p)
                                    = Some (Inl e)"
      by auto
    from Cons.IH [OF this, of "results(prob \<mapsto> Dimension d)"]
    obtain e where "sweep_probabilities ops N m probs (results(prob \<mapsto> Dimension d)) = Some (Inl e)"
      by blast
    then show ?thesis by (simp add: d)
  qed
qed

lemma sweep_min_distances_total:
  "\<exists>r. sweep_min_distances ops N ms probs results = Some r"
proof (induction ms arbitrary: results)
  case Nil
  show ?case by simp
next
  case (Cons m ms)
  obtain r where "sweep_probabilities ops N m probs Map.empty = Some r"
    using sweep_probabilities_total [of ops N m probs Map.empty] by auto
  then show ?case using Cons by (cases r) simp_all
qed

lemma sweep_min_distances_spec:
  assumes "\<forall>m \<in> set ms. \<forall>p \<in> set probs.
             \<exists>d. probability_all_vectors_min_distance ops N None m (Some p)
                   = Some (Inr (Dimension d))"
  shows "\<exists>r. sweep_min_distances ops N ms probs results = Some (Inr r)
      \<and> (\<forall>m. (m \<in> set ms \<longrightarrow>
                 (\<exists>inner. r m = Some inner
                    \<and> sweep_probabilities ops N m probs Map.empty = Some (Inr inner)))
             \<and> (m \<notin> set ms \<longrightarrow> r m = results m))"
  using assms
proof (induction ms arbitrary: results)
  case Nil
  show ?case by simp
next
  case (Cons m ms)
  have "\<forall>p \<in> set probs. \<exists>d. probability_all_vectors_min_distance ops N None m (Some p)
                                    = Some (Inr (Dimension d))"
    using Cons.prems by simp
  then obtain inner where inner: "sweep_probabilities ops N m probs Map.empty = Some (Inr inner)"
    using sweep_probabilities_spec [of probs ops N m Map.empty] by blast
  have "\<forall>m \<in> set ms. \<forall>p \<in> set probs.
             \<exists>d. probability_all_vectors_min_distance ops N None m (Some p)
                   = Some (Inr (Dimension d))"
    using Cons.prems by simp
  from Cons.IH [OF this, of "results(m \<mapsto> inner)"]
  obtain r where r: "sweep_min_distances ops N ms probs (results(m \<mapsto> inner)) = Some (Inr r)"
    and inside: "\<And>m'. m' \<in> set ms \<Longrightarrow>
                 \<exists>inner. r m' = Some inner
                    \<and> sweep_probabilities ops N m' probs Map.empty = Some (Inr inner)"
    and outside: "\<And>m'. m' \<notin> set ms \<Longrightarrow> r m' = (results(m \<mapsto> inner)) m'"
    by blast
  have "sweep_min_distances ops N (m # ms) probs results = Some (Inr r)"
    by (simp add: inner r)
  moreover have "\<exists>inner. r m' = Some inner
                    \<and> sweep_probabilities ops N m' probs Map.empty = Some (Inr inner)"
    if "m' \<in> set (m # ms)" for m'
  proof (cases "m' \<in> set ms")
    case True
    then show ?thesis by (rule inside)
  next
    case False
    with that have "m' = m" by simp
    with outside [OF False] inner show ?thesis by simp
  qed
  moreover have "r m' = results m'" if "m' \<notin> set (m # ms)" for m'
    using that outside [of m'] by simp
  ultimately show ?case by blast
qed

lemma sweep_min_distances_raises:
  assumes "\<exists>m \<in> set ms. \<exists>p \<in> set probs.
             \<exists>e. probability_all_vectors_min_distance ops N None m (Some p) = Some (Inl e)"
  shows "\<exists>e. sweep_min_distances ops N ms probs results = Some (Inl e)"
  using assms
proof (induction ms arbitrary: results)
  case Nil
  then show ?case by simp
next
  case (Cons m ms)
  obtain r where r: "sweep_probabilities ops N m probs Map.empty = Some r"
    using sweep_probabilities_total [of ops N m probs Map.empty] by auto
  show ?case
  proof (cases r)
    case (Inl e)
    with r show ?thesis by simp
  next
    case (Inr inner)
    have "\<not> (\<exists>p \<in> set probs. \<exists>e. probability_all_vectors_min_distance ops N None m (Some p)
                                    = Some (Inl e))"
      using sweep_probabilities_raises [of probs ops N m Map.empty] r Inr by auto
    with Cons.prems
    have "\<exists>m \<in> set ms. \<exists>p \<in> set probs.
             \<exists>e. probability_all_vectors_min_distance ops N None m (Some p) = Some (Inl e)"
      by auto
    from Cons.IH [OF this, of "results(m \<mapsto> inner)"]
    obtain e where "sweep_min_distances ops N ms probs (results(m \<mapsto> inner)) = Some (Inl e)"
      by blast
    then show ?thesis by (simp add: r Inr)
  qed
qed

lemma sweep_N_values_spec:
  assumes "\<forall>N \<in> set Ns. \<forall>m \<in> set ms. \<forall>p \<in> set probs.
             \<exists>d. probability_all_vectors_min_distance ops N None m (Some p)
                   = Some (Inr (Dimension d))"
  shows "\<exists>r. sweep_N_values ops Ns ms probs results = Some (Inr r)
      \<and> (\<forall>N. (N \<in> set Ns \<longrightarrow>
                 (\<exists>inner. r N = Some inner
                    \<and> sweep_min_distances ops N ms probs Map.empty = Some (Inr inner)))
             \<and> (N \<notin> set Ns \<longrightarrow> r N = results N))"
  using assms
proof (induction Ns arbitrary: results)
  case Nil
  show ?case by simp
next
  case (Cons N Ns)
  have "\<forall>m \<in> set ms. \<forall>p \<in> set probs.
             \<exists>d. probability_all_vectors_min_distance ops N None m (Some p)
                   = Some (Inr (Dimension d))"
    using Cons.prems by simp
  then obtain inner where inner: "sweep_min_distances ops N ms probs Map.empty = Some (Inr inner)"
    using sweep_min_distances_spec [of ms probs ops N Map.empty] by blast
  have "\<forall>N \<in> set Ns. \<forall>m \<in> set ms. \<forall>p \<in> set probs.
             \<exists>d. probability_all_vectors_min_distance ops N None m (Some p)
                   = Some (Inr (Dimension d))"
    using Cons.prems by simp
  from Cons.IH [OF this, of "results(N \<mapsto> inner)"]
  obtain r where r: "sweep_N_values ops Ns ms probs (results(N \<mapsto> inner)) = Some (Inr r)"
    and inside: "\<And>N'. N' \<in> set Ns \<Longrightarrow>
                 \<exists>inner. r N' = Some inner
                    \<and> sweep_min_distances ops N' ms probs Map.empty = Some (Inr inner)"
    and outside: "\<And>N'. N' \<notin> set Ns \<Longrightarrow> r N' = (results(N \<mapsto> inner)) N'"
    by blast
  have "sweep_N_values ops (N # Ns) ms probs results = Some (Inr r)"
    by (simp add: inner r)
  moreover have "\<exists>inner. r N' = Some inner
                    \<and> sweep_min_distances ops N' ms probs Map.empty = Some (Inr inner)"
    if "N' \<in> set (N # Ns)" for N'
  proof (cases "N' \<in> set Ns")
    case True
    then show ?thesis by (rule inside)
  next
    case False
    with that have "N' = N" by simp
    with outside [OF False] inner show ?thesis by simp
  qed
  moreover have "r N' = results N'" if "N' \<notin> set (N # Ns)" for N'
    using that outside [of N'] by simp
  ultimately show ?case by blast
qed

lemma sweep_N_values_raises:
  assumes "\<exists>N \<in> set Ns. \<exists>m \<in> set ms. \<exists>p \<in> set probs.
             \<exists>e. probability_all_vectors_min_distance ops N None m (Some p) = Some (Inl e)"
  shows "\<exists>e. sweep_N_values ops Ns ms probs results = Some (Inl e)"
  using assms
proof (induction Ns arbitrary: results)
  case Nil
  then show ?case by simp
next
  case (Cons N Ns)
  obtain r where r: "sweep_min_distances ops N ms probs Map.empty = Some r"
    using sweep_min_distances_total [of ops N ms probs Map.empty] by auto
  show ?case
  proof (cases r)
    case (Inl e)
    with r show ?thesis by simp
  next
    case (Inr inner)
    have "\<not> (\<exists>m \<in> set ms. \<exists>p \<in> set probs.
             \<exists>e. probability_all_vectors_min_distance ops N None m (Some p) = Some (Inl e))"
      using sweep_min_distances_raises [of ms probs ops N Map.empty] r Inr by auto
    with Cons.prems
    have "\<exists>N \<in> set Ns. \<exists>m \<in> set ms. \<exists>p \<in> set probs.
             \<exists>e. probability_all_vectors_min_distance ops N None m (Some p) = Some (Inl e)"
      by auto
    from Cons.IH [OF this, of "results(N \<mapsto> inner)"]
    obtain e where "sweep_N_values ops Ns ms probs (results(N \<mapsto> inner)) = Some (Inl e)"
      by blast
    then show ?thesis by (simp add: r Inr)
  qed
qed


text \<open>
  For \<open>N_values = [10\<^bsup>155\<^esup>]\<close> the first inverse-mode call raises an
  \<open>OverflowError\<close>, and the sweep raises it too: no mapping is returned.
\<close>

theorem sweep_overflow_counterexample:
  "calculate_required_dimensions exact_arith [10 ^ 155] [1] [1/2] = Some (Inl OverflowError)"
proof -
  have "probability_all_vectors_min_distance exact_arith (10 ^ 155) None 1 (Some (1/2))
     = Some (Inl OverflowError)"
    by (rule inverse_overflow [OF _ huge_N_overflows]) simp
  then show ?thesis
    by (simp add: calculate_required_dimensions_def)
qed

text \<open>
  C8 (as the code behaves): when the inverse-mode call
  \<open>probability_all_vectors_min_distance(N, None, min_dist, prob)\<close> returns a dimension
  at every combination of the three lists, the sweep returns a nested dictionary whose
  entry at \<open>(N, min_dist, prob)\<close> is that dimension for every combination, and that has
  no entry at any other triple. When the call raises an exception at some combination,
  the sweep raises an exception and returns no dictionary.
\<close>

theorem sweep_entries:
  "((\<forall>N \<in> set N_values. \<forall>min_dist \<in> set min_distances. \<forall>prob \<in> set target_probabilities.
       \<exists>d. probability_all_vectors_min_distance ops N None min_dist (Some prob)
             = Some (Inr (Dimension d)))
    \<longrightarrow> (\<exists>results. calculate_required_dimensions ops N_values min_distances target_probabilities
                      = Some (Inr results)
           \<and> (\<forall>N min_dist prob.
                (N \<in> set N_values \<and> min_dist \<in> set min_distances
                   \<and> prob \<in> set target_probabilities
                 \<longrightarrow> (\<exists>d. entry results N min_dist prob = Some (Dimension d)
                         \<and> probability_all_vectors_min_distance ops N None min_dist (Some prob)
                             = Some (Inr (Dimension d))))
              \<and> (\<not> (N \<in> set N_values \<and> min_dist \<in> set min_distances
                      \<and> prob \<in> set target_probabilities)
                 \<longrightarrow> entry results N min_dist prob = None))))
   \<and> ((\<exists>N \<in> set N_values. \<exists>min_dist \<in> set min_distances. \<exists>prob \<in> set target_probabilities.
         \<exists>e. probability_all_vectors_min_distance ops N None min_dist (Some prob)
               = Some (Inl e))
       \<longrightarrow> (\<exists>e. calculate_required_dimensions ops N_values min_distances target_probabilities
                   = Some (Inl e)))"
proof (intro conjI impI)
  assume "\<exists>N \<in> set N_values. \<exists>min_dist \<in> set min_distances. \<exists>prob \<in> set target_probabilities.
         \<exists>e. probability_all_vectors_min_distance ops N None min_dist (Some prob)
               = Some (Inl e)"
  then show "\<exists>e. calculate_required_dimensions ops N_values min_distances target_probabilities
                   = Some (Inl e)"
    unfolding calculate_required_dimensions_def by (rule sweep_N_values_raises)
next
  assume all: "\<forall>N \<in> set N_values. \<forall>min_dist \<in> set min_distances.
       \<forall>prob \<in> set target_probabilities.
       \<exists>d. probability_all_vectors_min_distance ops N None min_dist (Some prob)
             = Some (Inr (Dimension d))"
  obtain results where res:
    "sweep_N_values ops N_values min_distances target_probabilities Map.empty
       = Some (Inr results)"
    and in_N: "\<And>N. N \<in> set N_values \<Longrightarrow>
                 \<exists>inner. results N = Some inner
                    \<and> sweep_min_distances ops N min_distances target_probabilities Map.empty
                        = Some (Inr inner)"
    and out_N: "\<And>N. N \<notin> set N_values \<Longrightarrow> results N = None"
    using sweep_N_values_spec [OF all, of Map.empty] by auto
  have "entry results N m p = None" if "N \<notin> set N_values" for N m p
    using out_N [OF that] by (simp add: entry_def)
  moreover have "(m \<in> set min_distances \<and> p \<in> set target_probabilities
              \<longrightarrow> (\<exists>d. entry results N m p = Some (Dimension d)
                      \<and> probability_all_vectors_min_distance ops N None m (Some p)
                          = Some (Inr (Dimension d))))
         \<and> (\<not> (m \<in> set min_distances \<and> p \<in> set target_probabilities)
              \<longrightarrow> entry results N m p = None)" if N: "N \<in> set N_values" for N m p
  proof -
    obtain by_dist where by_dist: "results N = Some by_dist"
      "sweep_min_distances ops N min_distances target_probabilities Map.empty
         = Some (Inr by_dist)"
      using in_N [OF N] by blast
    have calls: "\<forall>m \<in> set min_distances. \<forall>p \<in> set target_probabilities.
             \<exists>d. probability_all_vectors_min_distance ops N None m (Some p)
                   = Some (Inr (Dimension d))"
      using all N by blast
    have dist: "(m \<in> set min_distances \<longrightarrow>
                 (\<exists>inner. by_dist m = Some inner
                    \<and> sweep_probabilities ops N m target_probabilities Map.empty
                        = Some (Inr inner)))
             \<and> (m \<notin> set min_distances \<longrightarrow> by_dist m = None)"
      using sweep_min_distances_spec [OF calls, of Map.empty] by_dist(2) by auto
    show ?thesis
    proof (cases "m \<in> set min_distances")
      case False
      with dist show ?thesis by (simp add: entry_def by_dist(1))
    next
      case True
      with dist obtain by_prob where by_prob: "by_dist m = Some by_prob"
        "sweep_probabilities ops N m target_probabilities Map.empty = Some (Inr by_prob)"
        by blast
      have "\<forall>p \<in> set target_probabilities.
             \<exists>d. probability_all_vectors_min_distance ops N None m (Some p)
                   = Some (Inr (Dimension d))"
        using calls True by blast
      from sweep_probabilities_spec [OF this, of Map.empty]
      have "(p \<in> set target_probabilities \<longrightarrow>
                 (\<exists>d. by_prob p = Some (Dimension d)
                    \<and> probability_all_vectors_min_distance ops N None m (Some p)
                        = Some (Inr (Dimension d))))
             \<and> (p \<notin> set target_probabilities \<longrightarrow> by_prob p = None)"
        using by_prob(2) by auto
      then show ?thesis using True by (simp add: entry_def by_dist(1) by_prob(1))
    qed
  qed
  ultimately show "\<exists>results. calculate_required_dimensions ops N_values min_distances
                      target_probabilities = Some (Inr results)
           \<and> (\<forall>N min_dist prob.
                (N \<in> set N_values \<and> min_dist \<in> set min_distances
                   \<and> prob \<in> set target_probabilities
                 \<longrightarrow> (\<exists>d. entry results N min_dist prob = Some (Dimension d)
                         \<and> probability_all_vectors_min_distance ops N None min_dist (Some prob)
                             = Some (Inr (Dimension d))))
              \<and> (\<not> (N \<in> set N_values \<and> min_dist \<in> set min_distances
                      \<and> prob \<in> set target_probabilities)
                 \<longrightarrow> entry results N min_dist prob = None))"
    unfolding calculate_required_dimensions_def using res by blast
qed

theorem sweep_entries_witness:
  "(\<exists>results. calculate_required_dimensions exact_arith [2] [1] [3/4, 2] = Some (Inr results)
     \<and> entry results 2 1 (3/4) = Some (Dimension 2)
     \<and> entry results 2 1 2 = Some (Dimension 1001)
     \<and> entry results 3 1 2 = None
     \<and> entry results 2 1 (1/4) = None)
   \<and> (\<exists>e. calculate_required_dimensions exact_arith [2, 10 ^ 155] [1] [3/4, 2] = Some (Inl e))"
proof -
  have a: "probability_all_vectors_min_distance exact_arith 2 None 1 (Some (3/4))
             = Some (Inr (Dimension 2))"
    by (rule exact_required_2_1) (simp_all add: power2_eq_square)
  have b: "probability_all_vectors_min_distance exact_arith 2 None 1 (Some 2)
             = Some (Inr (Dimension 1001))"
    by (rule exact_required_2_1_none) simp
  have all: "\<forall>N \<in> set [2]. \<forall>min_dist \<in> set [1]. \<forall>prob \<in> set [3/4, 2].
       \<exists>d. probability_all_vectors_min_distance exact_arith N None min_dist (Some prob)
             = Some (Inr (Dimension d))"
    using a b by simp
  obtain results where res:
    "calculate_required_dimensions exact_arith [2] [1] [3/4, 2] = Some (Inr results)"
    and spec: "\<And>N min_dist prob.
           (N \<in> set [2] \<and> min_dist \<in> set [1] \<and> prob \<in> set [3/4, 2]
              \<longrightarrow> (\<exists>d. entry results N min_dist prob = Some (Dimension d)
                      \<and> probability_all_vectors_min_distance exact_arith N None min_dist (Some prob)
                          = Some (Inr (Dimension d))))
         \<and> (\<not> (N \<in> set [2] \<and> min_dist \<in> set [1] \<and> prob \<in> set [3/4, 2])
              \<longrightarrow> entry results N min_dist prob = None)"
    using sweep_entries [of "[2]" "[1]" "[3/4, 2]" exact_arith] all by blast
  have "entry results 2 1 (3/4) = Some (Dimension 2)"
    using spec [of 2 1 "3/4"] a by auto
  moreover have "entry results 2 1 2 = Some (Dimension 1001)"
    using spec [of 2 1 2] b by auto
  moreover have "entry results 3 1 2 = None"
    using spec [of 3 1 2] by simp
  moreover have "entry results 2 1 (1/4) = None"
    using spec [of 2 1 "1/4"] by simp
  ultimately have first: "\<exists>results. calculate_required_dimensions exact_arith [2] [1] [3/4, 2]
       = Some (Inr results)
     \<and> entry results 2 1 (3/4) = Some (Dimension 2)
     \<and> entry results 2 1 2 = Some (Dimension 1001)
     \<and> entry results 3 1 2 = None
     \<and> entry results 2 1 (1/4) = None"
    using res by blast
  have "probability_all_vectors_min_distance exact_arith (10 ^ 155) None 1 (Some (3/4))
     = Some (Inl OverflowError)"
    by (rule inverse_overflow [OF _ huge_N_overflows]) simp
  then have "\<exists>N \<in> set [2, 10 ^ 155]. \<exists>min_dist \<in> set [1]. \<exists>prob \<in> set [3/4, 2].
         \<exists>e. probability_all_vectors_min_distance exact_arith N None min_dist (Some prob)
               = Some (Inl e)"
    by (intro bexI [of _ "10 ^ 155"] bexI [of _ 1] bexI [of _ "3/4"] exI [of _ OverflowError])
       simp_all
  then have "\<exists>e. calculate_required_dimensions exact_arith [2, 10 ^ 155] [1] [3/4, 2]
                = Some (Inl e)"
    using sweep_entries [of "[2, 10 ^ 155]" "[1]" "[3/4, 2]" exact_arith] by blast
  with first show ?thesis by blast
qed

section \<open>The Monte Carlo success checks\<close>

lemma hamming_distance_less_1:
  assumes "length v1 = length v2"
  shows "hamming_distance v1 v2 < 1 \<longleftrightarrow> v1 = v2"
proof -
  have "hamming_distance v1 v2 < 1 \<longleftrightarrow> filter (\<lambda>(a, b). a \<noteq> b) (zip v1 v2) = []"
    by (simp add: hamming_distance_def)
  also have "\<dots> \<longleftrightarrow> (\<forall>(a, b) \<in> set (zip v1 v2). a = b)"
    by (auto simp: filter_empty_conv)
  also have "\<dots> \<longleftrightarrow> v1 = v2"
    using assms by (simp add: list_eq_iff_zip_eq)
  finally show ?thesis .
qed

lemma inner_pair_loop_distinct:
  assumes "i < length vectors" and "\<forall>j \<in> set js. j < length vectors"
    and "\<forall>v \<in> set vectors. length v = d"
  shows "inner_pair_loop vectors 1 i js = Inr (\<forall>j \<in> set js. vectors ! i \<noteq> vectors ! j)"
  using assms(2)
proof (induction js)
  case Nil
  show ?case by simp
next
  case (Cons j js)
  then have j: "j < length vectors" by simp
  then have "length (vectors ! i) = length (vectors ! j)"
    using assms(1,3) by simp
  then have "hamming_distance (vectors ! i) (vectors ! j) < 1 \<longleftrightarrow> vectors ! i = vectors ! j"
    by (rule hamming_distance_less_1)
  then show ?case using Cons assms(1) j by simp
qed

lemma outer_pair_loop_distinct:
  assumes "\<forall>i \<in> set is. i < length vectors" and "\<forall>v \<in> set vectors. length v = d"
  shows "outer_pair_loop vectors 1 (length vectors) is
           = Inr (\<forall>i \<in> set is. \<forall>j \<in> {i + 1..<length vectors}. vectors ! i \<noteq> vectors ! j)"
  using assms(1)
proof (induction "is")
  case Nil
  show ?case by simp
next
  case (Cons i "is")
  then have i: "i < length vectors" by simp
  have "inner_pair_loop vectors 1 i [i + 1..<length vectors]
          = Inr (\<forall>j \<in> set [i + 1..<length vectors]. vectors ! i \<noteq> vectors ! j)"
    using i assms(2) by (intro inner_pair_loop_distinct [where d = d]) simp_all
  then show ?case using Cons by auto
qed

lemma distinct_iff_upper_pairs:
  "distinct xs \<longleftrightarrow> (\<forall>i \<in> {0..<length xs}. \<forall>j \<in> {Suc i..<length xs}. xs ! i \<noteq> xs ! j)"
proof
  assume "distinct xs"
  then show "\<forall>i \<in> {0..<length xs}. \<forall>j \<in> {Suc i..<length xs}. xs ! i \<noteq> xs ! j"
    by (auto simp: distinct_conv_nth)
next
  assume upper: "\<forall>i \<in> {0..<length xs}. \<forall>j \<in> {Suc i..<length xs}. xs ! i \<noteq> xs ! j"
  have "xs ! i \<noteq> xs ! j" if "i < length xs" "j < length xs" "i \<noteq> j" for i j
  proof (cases "i < j")
    case True
    with upper that show ?thesis by simp
  next
    case False
    with that have "j < i" by simp
    with upper that have "xs ! j \<noteq> xs ! i" by simp
    then show ?thesis by simp
  qed
  then show "distinct xs" by (simp add: distinct_conv_nth)
qed

text \<open>
  C6: for \<open>min_distance = 1\<close> and every array of \<open>N\<close> vectors of \<open>D\<close> coordinates,
  the exhaustive pairwise check of sample\_2.py returns without an exception, and it
  succeeds if and only if the deduplication check of sample.py (the set of the vectors
  has exactly \<open>N\<close> elements) succeeds.
\<close>

theorem distinct_check_equivalent:
  assumes "int (length vectors) = N" and "\<forall>v \<in> set vectors. length v = nat D"
  shows "all_meet_min_distance N 1 vectors = Inr (all_vectors_distinct N vectors)"
proof -
  have n: "nat N = length vectors" using assms(1) by auto
  have "all_meet_min_distance N 1 vectors = Inr (distinct vectors)"
    unfolding all_meet_min_distance_def n
    using assms(2)
    by (subst outer_pair_loop_distinct [where d = "nat D"])
       (simp_all add: distinct_iff_upper_pairs [symmetric])
  moreover have "all_vectors_distinct N vectors \<longleftrightarrow> distinct vectors"
    using assms(1) by (auto simp: all_vectors_distinct_def distinct_card card_distinct)
  ultimately show ?thesis by simp
qed

theorem distinct_check_equivalent_witness:
  "all_vectors_distinct 3 [[1, -1], [1, 1], [1, -1]] = False
   \<and> all_meet_min_distance 3 1 [[1, -1], [1, 1], [1, -1]] = Inr False
   \<and> all_vectors_distinct 3 [[1, -1], [1, 1], [-1, -1]] = True
   \<and> all_meet_min_distance 3 1 [[1, -1], [1, 1], [-1, -1]] = Inr True"
proof -
  have a: "all_vectors_distinct 3 [[1, -1], [1, 1], [1, -1]] = False"
    by (simp add: all_vectors_distinct_def card_insert_if)
  have b: "all_vectors_distinct 3 [[1, -1], [1, 1], [-1, -1]] = True"
    by (simp add: all_vectors_distinct_def card_insert_if)
  show ?thesis
    using distinct_check_equivalent [of "[[1, -1], [1, 1], [1, -1]]" 3 2]
      distinct_check_equivalent [of "[[1, -1], [1, 1], [-1, -1]]" 3 2] a b
    by simp
qed

section \<open>Invalid parameters\<close>















end
